theory Spec2Isabelle
  imports Complex_Main
begin

section \<open>Floating-point cells\<close>

text \<open>
  The metric functions of \<^verbatim>\<open>src/app.py\<close> work on pandas frames of \<^verbatim>\<open>float64\<close>
  closing prices. A cell is a finite number, one of the two infinities, or
  not-a-number. The operations \<open>fl_add\<close>, \<open>fl_mul\<close>, \<open>fl_div\<close> give the exact result on
  finite cells (overflow and the sign of zero are left out); what numpy does at a zero
  divisor or an undefined power, where it returns a non-finite value and does not raise, is
  written out. Rounding a result to the nearest \<^verbatim>\<open>float64\<close> is \<open>fp64\<close>, below.
\<close>

datatype fl = Fin real | PInf | NInf | NaN

datatype error = ZeroDivisionError | IndexError

fun is_nan :: "fl \<Rightarrow> bool" where
  "is_nan NaN = True"
| "is_nan _ = False"

fun is_fin :: "fl \<Rightarrow> bool" where
  "is_fin (Fin _) = True"
| "is_fin _ = False"

fun sgn_fl :: "fl \<Rightarrow> real" where
  "sgn_fl (Fin a) = sgn a"
| "sgn_fl PInf = 1"
| "sgn_fl NInf = - 1"
| "sgn_fl NaN = 0"

definition inf_of_sign :: "real \<Rightarrow> fl" where
  "inf_of_sign s = (if 0 < s then PInf else if s < 0 then NInf else NaN)"

fun fl_neg :: "fl \<Rightarrow> fl" where
  "fl_neg (Fin a) = Fin (- a)"
| "fl_neg PInf = NInf"
| "fl_neg NInf = PInf"
| "fl_neg NaN = NaN"

fun fl_add :: "fl \<Rightarrow> fl \<Rightarrow> fl" where
  "fl_add (Fin a) (Fin b) = Fin (a + b)"
| "fl_add NaN _ = NaN"
| "fl_add _ NaN = NaN"
| "fl_add PInf NInf = NaN"
| "fl_add NInf PInf = NaN"
| "fl_add PInf _ = PInf"
| "fl_add _ PInf = PInf"
| "fl_add NInf _ = NInf"
| "fl_add _ NInf = NInf"

definition fl_sub :: "fl \<Rightarrow> fl \<Rightarrow> fl" where
  "fl_sub x y = fl_add x (fl_neg y)"

fun fl_mul :: "fl \<Rightarrow> fl \<Rightarrow> fl" where
  "fl_mul (Fin a) (Fin b) = Fin (a * b)"
| "fl_mul NaN _ = NaN"
| "fl_mul _ NaN = NaN"
| "fl_mul x y = inf_of_sign (sgn_fl x * sgn_fl y)"

text \<open>numpy division: a zero divisor gives an infinity, or NaN for \<open>0 / 0\<close>.\<close>

fun fl_div :: "fl \<Rightarrow> fl \<Rightarrow> fl" where
  "fl_div (Fin a) (Fin b) = (if b = 0 then inf_of_sign (sgn a) else Fin (a / b))"
| "fl_div NaN _ = NaN"
| "fl_div _ NaN = NaN"
| "fl_div (Fin a) _ = Fin 0"
| "fl_div x (Fin b) = inf_of_sign (sgn_fl x * (if b < 0 then - 1 else 1))"
| "fl_div _ _ = NaN"

text \<open>
  \<^verbatim>\<open>x ** e\<close> on a numpy scalar (C \<^verbatim>\<open>pow\<close>): a negative base with a
  non-integer exponent is NaN.
\<close>

definition is_int :: "real \<Rightarrow> bool" where
  "is_int e = (of_int \<lfloor>e\<rfloor> = e)"

definition fl_pow :: "fl \<Rightarrow> real \<Rightarrow> fl" where
  "fl_pow x e =
     (if e = 0 then Fin 1
      else case x of
        NaN \<Rightarrow> NaN
      | Fin b \<Rightarrow>
          if 0 < b then Fin (b powr e)
          else if b = 0 then (if 0 < e then Fin 0 else PInf)
          else if is_int e then Fin (power_int b \<lfloor>e\<rfloor>)
          else NaN
      | PInf \<Rightarrow> (if 0 < e then PInf else Fin 0)
      | NInf \<Rightarrow>
          if e < 0 then Fin 0
          else if is_int e \<and> odd \<lfloor>e\<rfloor> then NInf
          else PInf)"

text \<open>
  \<^verbatim>\<open>round(x, 2)\<close> on a numpy scalar: scale by 100, round to the nearest integer
  with ties to the even one, scale back. \<open>fl_round2\<close> does this on exact values;
  \<open>np_round2\<close>, below, adds the \<^verbatim>\<open>float64\<close> rounding of the product and of the
  quotient.
\<close>

definition rint :: "real \<Rightarrow> real" where
  "rint x =
     (let f = \<lfloor>x\<rfloor>; d = x - of_int f
      in if d < 1 / 2 then of_int f
         else if 1 / 2 < d then of_int (f + 1)
         else if even f then of_int f
         else of_int (f + 1))"

definition round2 :: "real \<Rightarrow> real" where
  "round2 x = rint (x * 100) / 100"

fun fl_round2 :: "fl \<Rightarrow> fl" where
  "fl_round2 (Fin a) = Fin (round2 a)"
| "fl_round2 x = x"

text \<open>
  The nearest \<^verbatim>\<open>float64\<close> to a real number, ties to the even significand: 53
  significant bits, so the spacing in the binade of \<open>x\<close> is \<open>2\<close> to the power
  \<open>\<lfloor>log\<^sub>2 \<bar>x\<bar>\<rfloor> - 52\<close> (no overflow, no subnormal numbers). An arithmetic operation on
  \<^verbatim>\<open>float64\<close> values returns the exact result rounded this way; the C \<^verbatim>\<open>pow\<close> behind
  \<^verbatim>\<open>**\<close> is taken as rounding the same way. \<open>np_round2\<close> is \<^verbatim>\<open>round(x, 2)\<close> with its
  own two roundings: the product by 100, the nearest integer, the quotient by 100.
\<close>

definition fp64 :: "real \<Rightarrow> real" where
  "fp64 x =
     (if x = 0 then 0
      else let e = \<lfloor>log 2 \<bar>x\<bar>\<rfloor>; u = 2 powi (e - 52)
           in rint (x / u) * u)"

fun fl_rnd :: "fl \<Rightarrow> fl" where
  "fl_rnd (Fin a) = Fin (fp64 a)"
| "fl_rnd x = x"

fun np_round2 :: "fl \<Rightarrow> fl" where
  "np_round2 (Fin a) = Fin (fp64 (rint (fp64 (a * 100)) / 100))"
| "np_round2 x = x"

section \<open>Price frames\<close>

text \<open>
  \<^verbatim>\<open>get_historical_prices\<close> returns \<^verbatim>\<open>None\<close> or a frame with one
  \<^verbatim>\<open>Close\<close> column indexed by date: a list of (date, close) rows in index order.
\<close>

type_synonym 'd frame = "('d \<times> fl) list"

section \<open>calculate_cagr\<close>

text \<open>
  The second decimal of the result can turn on the last bit of an intermediate value (the
  quotient 161 / 160 puts the exact value on a tie of \<^verbatim>\<open>round\<close>), so here every
  operation is followed by its rounding to \<^verbatim>\<open>float64\<close>. \<^verbatim>\<open>1 / years\<close> divides by a
  Python number and raises at zero.
\<close>

definition calculate_cagr :: "'d frame option \<Rightarrow> real \<Rightarrow> error + fl option" where
  "calculate_cagr prices years =
     (case prices of
        None \<Rightarrow> Inr None
      | Some [] \<Rightarrow> Inr None
      | Some (p # ps) \<Rightarrow>
          (let start_price = snd p;
               end_price = snd (last (p # ps))
           in if years = 0 then Inl ZeroDivisionError
              else let ratio = fl_rnd (fl_div end_price start_price);
                       growth = fl_rnd (fl_pow ratio (fp64 (1 / years)));
                       cagr = fl_rnd (fl_mul (fl_rnd (fl_sub growth (Fin 1))) (Fin 100))
                   in Inr (Some (np_round2 cagr))))"

section \<open>Series operations of pandas\<close>

text \<open>
  A series is a column with its index. \<^verbatim>\<open>pct_change\<close> puts NaN in the first row and
  \<open>x / prev - 1\<close> in the others (closes are taken as delivered, with no gap filling);
  \<^verbatim>\<open>dropna\<close> removes the NaN rows and keeps infinite ones.
\<close>

fun pct_from :: "fl \<Rightarrow> fl list \<Rightarrow> fl list" where
  "pct_from prev [] = []"
| "pct_from prev (x # xs) = fl_sub (fl_div x prev) (Fin 1) # pct_from x xs"

fun pct_change :: "fl list \<Rightarrow> fl list" where
  "pct_change [] = []"
| "pct_change (x # xs) = NaN # pct_from x xs"

definition on_values :: "(fl list \<Rightarrow> fl list) \<Rightarrow> 'd frame \<Rightarrow> 'd frame" where
  "on_values g s = zip (map fst s) (g (map snd s))"

definition dropna :: "'d frame \<Rightarrow> 'd frame" where
  "dropna s = filter (\<lambda>row. \<not> is_nan (snd row)) s"

primrec fl_sum :: "fl list \<Rightarrow> fl" where
  "fl_sum [] = Fin 0"
| "fl_sum (x # xs) = fl_add x (fl_sum xs)"

fun fl_sqrt :: "fl \<Rightarrow> fl" where
  "fl_sqrt (Fin a) = (if a < 0 then NaN else Fin (sqrt a))"
| "fl_sqrt PInf = PInf"
| "fl_sqrt NInf = NaN"
| "fl_sqrt NaN = NaN"

text \<open>
  The standard deviation with \<open>ddof\<close> delta degrees of freedom, skipping NaN: the mean,
  the squared deviations from it, their sum over \<open>count - ddof\<close>, and the square root;
  NaN when \<open>count \<le> ddof\<close>.
\<close>

definition nanvar :: "nat \<Rightarrow> fl list \<Rightarrow> fl" where
  "nanvar ddof xs =
     (let vs = filter (\<lambda>x. \<not> is_nan x) xs;
          count = length vs
      in if count \<le> ddof then NaN
         else let avg = fl_div (fl_sum vs) (Fin (real count));
                  sqr = map (\<lambda>v. fl_mul (fl_sub avg v) (fl_sub avg v)) vs
              in fl_div (fl_sum sqr) (Fin (real (count - ddof))))"

definition nanstd :: "nat \<Rightarrow> fl list \<Rightarrow> fl" where
  "nanstd ddof xs = fl_sqrt (nanvar ddof xs)"

text \<open>
  \<^verbatim>\<open>np.std(series)\<close> hands over to \<^verbatim>\<open>series.std\<close> with numpy's own default
  \<^verbatim>\<open>ddof=0\<close>; \<^verbatim>\<open>series.rolling(window).std()\<close> keeps the pandas default
  \<^verbatim>\<open>ddof=1\<close>.
\<close>

definition np_std :: "fl list \<Rightarrow> fl" where
  "np_std xs = nanstd 0 xs"

text \<open>
  \<^verbatim>\<open>rolling(window=w).std()\<close>: one value per row; NaN until the window is full
  (\<^verbatim>\<open>min_periods\<close> defaults to the window), then the sample deviation of the last
  \<open>w\<close> rows.
\<close>

definition rolling_std :: "nat \<Rightarrow> fl list \<Rightarrow> fl list" where
  "rolling_std w xs =
     map (\<lambda>i. if Suc i < w then NaN
              else let win = take w (drop (Suc i - w) xs)
                   in if length (filter (\<lambda>x. \<not> is_nan x) win) < w then NaN
                      else nanstd 1 win)
       [0..<length xs]"

text \<open>\<^verbatim>\<open>cumprod\<close> skips NaN: the row stays NaN and the product carries on.\<close>

fun cumprod_from :: "fl \<Rightarrow> fl list \<Rightarrow> fl list" where
  "cumprod_from acc [] = []"
| "cumprod_from acc (x # xs) =
     (if is_nan x then NaN # cumprod_from acc xs
      else fl_mul acc x # cumprod_from (fl_mul acc x) xs)"

definition cumprod :: "fl list \<Rightarrow> fl list" where
  "cumprod xs = cumprod_from (Fin 1) xs"

fun fl_le :: "fl \<Rightarrow> fl \<Rightarrow> bool" where
  "fl_le NaN _ = False"
| "fl_le _ NaN = False"
| "fl_le NInf _ = True"
| "fl_le _ PInf = True"
| "fl_le (Fin a) (Fin b) = (a \<le> b)"
| "fl_le _ _ = False"

definition fl_max :: "fl \<Rightarrow> fl \<Rightarrow> fl" where
  "fl_max a b = (if fl_le a b then b else a)"

definition fl_min :: "fl \<Rightarrow> fl \<Rightarrow> fl" where
  "fl_min a b = (if fl_le b a then b else a)"

text \<open>
  \<^verbatim>\<open>expanding(min_periods=1).max()\<close>: the largest non-NaN value so far, NaN while
  there is none.
\<close>

fun expanding_max_from :: "fl option \<Rightarrow> fl list \<Rightarrow> fl list" where
  "expanding_max_from st [] = []"
| "expanding_max_from st (x # xs) =
     (let st' = (if is_nan x then st
                 else case st of None \<Rightarrow> Some x | Some m \<Rightarrow> Some (fl_max m x))
      in (case st' of None \<Rightarrow> NaN | Some m \<Rightarrow> m) # expanding_max_from st' xs)"

definition expanding_max :: "fl list \<Rightarrow> fl list" where
  "expanding_max xs = expanding_max_from None xs"

text \<open>\<^verbatim>\<open>series.min()\<close> skips NaN and is NaN when nothing is left.\<close>

definition nanmin :: "fl list \<Rightarrow> fl" where
  "nanmin xs =
     (case filter (\<lambda>x. \<not> is_nan x) xs of
        [] \<Rightarrow> NaN
      | v # vs \<Rightarrow> foldl fl_min v vs)"

section \<open>calculate_volatility, calculate_max_drawdown\<close>

definition calculate_volatility :: "'d frame option \<Rightarrow> fl option" where
  "calculate_volatility prices =
     (case prices of
        None \<Rightarrow> None
      | Some [] \<Rightarrow> None
      | Some f \<Rightarrow>
          (let returns = dropna (on_values pct_change f);
               volatility = fl_mul (fl_mul (np_std (map snd returns)) (Fin (sqrt 252))) (Fin 100)
           in Some (fl_round2 volatility)))"

definition calculate_max_drawdown :: "'d frame option \<Rightarrow> fl option" where
  "calculate_max_drawdown prices =
     (case prices of
        None \<Rightarrow> None
      | Some [] \<Rightarrow> None
      | Some f \<Rightarrow>
          (let cumulative = cumprod (map (\<lambda>x. fl_add x (Fin 1)) (pct_change (map snd f)));
               peak = expanding_max cumulative;
               drawdown = map2 (\<lambda>c p. fl_mul (fl_sub (fl_div c p) (Fin 1)) (Fin 100)) cumulative peak
           in Some (fl_round2 (nanmin drawdown))))"

section \<open>plot_volatility_comparison\<close>

text \<open>
  The figure is given two traces; each has the rolling series' index as \<^verbatim>\<open>x\<close> and its
  values as \<^verbatim>\<open>y\<close>. \<open>rolling_vol\<close> is the pair of lines that computes one of them.
\<close>

definition rolling_vol :: "'d frame \<Rightarrow> 'd frame" where
  "rolling_vol prices =
     (let returns = dropna (on_values pct_change prices)
      in on_values
           (\<lambda>xs. map (\<lambda>v. fl_mul (fl_mul v (Fin (sqrt 252))) (Fin 100)) (rolling_std 63 xs))
           returns)"

record 'd trace =
  name :: string
  points :: "'d frame"

definition plot_volatility_comparison ::
  "'d frame option \<Rightarrow> 'd frame option \<Rightarrow> string \<Rightarrow> string \<Rightarrow> ('d trace \<times> 'd trace) option" where
  "plot_volatility_comparison prices1 prices2 name1 name2 =
     (case (prices1, prices2) of
        (Some f1, Some f2) \<Rightarrow>
          if f1 = [] \<or> f2 = [] then None
          else Some (\<lparr>name = name1, points = rolling_vol f1\<rparr>,
                     \<lparr>name = name2, points = rolling_vol f2\<rparr>)
      | _ \<Rightarrow> None)"

section \<open>display_comparison_metric\<close>

text \<open>
  A formatted string is kept as its pieces: literal text, and numbers to be printed with
  two decimals (\<^verbatim>\<open>{x:.2f}\<close>). The function appends three cards to the page, or
  returns before rendering anything; the model gives the cards appended.
\<close>

datatype seg = Txt string | Fmt2 fl

record card =
  heading :: string
  body :: "seg list"
  badge_class :: "string option"

fun fl_gt0 :: "fl \<Rightarrow> bool" where
  "fl_gt0 (Fin a) = (0 < a)"
| "fl_gt0 PInf = True"
| "fl_gt0 _ = False"

fun fl_lt0 :: "fl \<Rightarrow> bool" where
  "fl_lt0 (Fin a) = (a < 0)"
| "fl_lt0 NInf = True"
| "fl_lt0 _ = False"

fun fl_abs :: "fl \<Rightarrow> fl" where
  "fl_abs (Fin a) = Fin \<bar>a\<bar>"
| "fl_abs NaN = NaN"
| "fl_abs _ = PInf"

definition display_comparison_metric ::
  "fl option \<Rightarrow> fl option \<Rightarrow> string \<Rightarrow> string \<Rightarrow> bool \<Rightarrow> card list" where
  "display_comparison_metric value1 value2 title unit reverse =
     (case (value1, value2) of
        (Some v1, Some v2) \<Rightarrow>
          (let diff = fl_sub v1 v2;
               abs_diff = fl_abs diff;
               (badge, comparison_text) =
                 (if fl_gt0 diff then
                    (if \<not> reverse then ''positive'' else ''negative'',
                     [Txt ''+'', Fmt2 abs_diff, Txt unit])
                  else if fl_lt0 diff then
                    (if \<not> reverse then ''negative'' else ''positive'',
                     [Txt ''-'', Fmt2 abs_diff, Txt unit])
                  else (''neutral'', [Txt ''0'', Txt unit]))
           in [\<lparr>heading = title, body = [Fmt2 v1, Txt unit], badge_class = None\<rparr>,
               \<lparr>heading = title, body = [Fmt2 v2, Txt unit], badge_class = None\<rparr>,
               \<lparr>heading = ''Diferencia'', body = comparison_text, badge_class = Some badge\<rparr>])
      | _ \<Rightarrow> [])"

section \<open>Normalised prices of the main flow\<close>

text \<open>
  \<^verbatim>\<open>prices / prices.iloc[0] * 100\<close>: every close over the first one, times 100, on
  the same index. \<^verbatim>\<open>iloc[0]\<close> raises on an empty frame; the main flow computes the
  two normalised frames only when both frames are there and non-empty, and warns otherwise.
\<close>

definition normalize_prices :: "'d frame \<Rightarrow> error + 'd frame" where
  "normalize_prices prices =
     (case prices of
        [] \<Rightarrow> Inl IndexError
      | p # ps \<Rightarrow> Inr (map (\<lambda>row. (fst row, fl_mul (fl_div (snd row) (snd p)) (Fin 100))) prices))"

definition price_chart ::
  "'d frame option \<Rightarrow> 'd frame option \<Rightarrow> error + ('d frame \<times> 'd frame) option" where
  "price_chart prices1 prices2 =
     (case (prices1, prices2) of
        (Some f1, Some f2) \<Rightarrow>
          if f1 \<noteq> [] \<and> f2 \<noteq> [] then
            (case normalize_prices f1 of
               Inl e \<Rightarrow> Inl e
             | Inr norm_prices1 \<Rightarrow>
                 (case normalize_prices f2 of
                    Inl e \<Rightarrow> Inl e
                  | Inr norm_prices2 \<Rightarrow> Inr (Some (norm_prices1, norm_prices2))))
          else Inr None
      | _ \<Rightarrow> Inr None)"

section \<open>The specification's computeVolatility\<close>

text \<open>
  Written from the specification's words, for comparison with \<^verbatim>\<open>calculate_volatility\<close>:
  the period-over-period returns, absent when fewer than two are available, otherwise their
  sample standard deviation times \<open>sqrt 252\<close> times 100, rounded to two decimals.
\<close>

definition spec_compute_volatility :: "'d frame \<Rightarrow> fl option" where
  "spec_compute_volatility series =
     (let returns = map snd (dropna (on_values pct_change series))
      in if length returns < 2 then None
         else Some (fl_round2 (fl_mul (fl_mul (nanstd 1 returns) (Fin (sqrt 252))) (Fin 100))))"

section \<open>Rounding lemmas\<close>

lemma rint_of_int: "rint (of_int n) = of_int n"
  by (simp add: rint_def)

lemma rint_zero: "rint 0 = 0"
  using rint_of_int [of 0] by simp

lemma round2_zero: "round2 0 = 0"
  by (simp add: round2_def rint_zero)

lemma round2_hundredths: "round2 (of_int n / 100) = of_int n / 100"
  by (simp add: round2_def rint_of_int)

lemma rint_near: "of_int n - 1 / 2 < x \<Longrightarrow> x < of_int n + 1 / 2 \<Longrightarrow> rint x = of_int n"
proof -
  assume lo: "of_int n - 1 / 2 < x" and hi: "x < of_int n + 1 / 2"
  show ?thesis
  proof (cases "of_int n \<le> x")
    case True
    then have "\<lfloor>x\<rfloor> = n"
      using hi by (intro floor_unique) auto
    then show ?thesis
      using hi by (simp add: rint_def Let_def)
  next
    case False
    then have fl: "\<lfloor>x\<rfloor> = n - 1"
      using lo by (intro floor_unique) auto
    have "\<not> x - of_int (n - 1) < 1 / 2" "1 / 2 < x - of_int (n - 1)"
      using lo by simp_all
    then show ?thesis
      by (simp add: rint_def Let_def fl)
  qed
qed

section \<open>Rounding to float64\<close>

lemma floor_log2: "2 powi k \<le> \<bar>x\<bar> \<Longrightarrow> \<bar>x\<bar> < 2 powi (k + 1) \<Longrightarrow> \<lfloor>log 2 \<bar>x\<bar>\<rfloor> = k"
proof -
  assume lo: "2 powi k \<le> \<bar>x\<bar>" and hi: "\<bar>x\<bar> < 2 powi (k + 1)"
  have pos: "0 < \<bar>x\<bar>"
    using lo zero_less_power_int [of "2::real" k] by linarith
  have "(2::real) powr real_of_int k \<le> \<bar>x\<bar>" "\<bar>x\<bar> < (2::real) powr (real_of_int k + 1)"
    using lo hi powr_real_of_int' [of "2::real" k] powr_real_of_int' [of "2::real" "k + 1"]
    by simp_all
  then show ?thesis
    using floor_log_eq_powr_iff [of "\<bar>x\<bar>" 2 k] pos by simp
qed

lemma fp64_in_binade:
  "2 powi k \<le> \<bar>x\<bar> \<Longrightarrow> \<bar>x\<bar> < 2 powi (k + 1) \<Longrightarrow> fp64 x = rint (x / 2 powi (k - 52)) * 2 powi (k - 52)"
proof -
  assume lo: "2 powi k \<le> \<bar>x\<bar>" and hi: "\<bar>x\<bar> < 2 powi (k + 1)"
  have "(0::real) < 2 powi k"
    by simp
  with lo have "0 < \<bar>x\<bar>"
    by linarith
  then have "x \<noteq> 0"
    by auto
  then show ?thesis
    by (simp add: fp64_def floor_log2 [OF lo hi] Let_def)
qed

lemma fp64_exact:
  "2 powi k \<le> \<bar>x\<bar> \<Longrightarrow> \<bar>x\<bar> < 2 powi (k + 1) \<Longrightarrow> x / 2 powi (k - 52) = of_int m \<Longrightarrow> fp64 x = x"
proof -
  assume lo: "2 powi k \<le> \<bar>x\<bar>" and hi: "\<bar>x\<bar> < 2 powi (k + 1)"
    and m: "x / 2 powi (k - 52) = of_int m"
  have u: "(2::real) powi (k - 52) \<noteq> 0"
    using zero_less_power_int [of "2::real" "k - 52"] by simp
  have "fp64 x = of_int m * 2 powi (k - 52)"
    by (simp only: fp64_in_binade [OF lo hi] m rint_of_int)
  also have "\<dots> = x"
    using m u by (simp add: field_simps)
  finally show ?thesis .
qed


lemma fp64_zero: "fp64 0 = 0"
  by (simp add: fp64_def)

lemma fp64_one: "fp64 1 = 1"
  by (rule fp64_exact [where k = 0 and m = "2 ^ 52"]) simp_all

lemma rint_diff: "\<bar>rint y - y\<bar> \<le> 1 / 2"
proof -
  have f1: "of_int \<lfloor>y\<rfloor> \<le> y" and f2: "y < of_int \<lfloor>y\<rfloor> + 1"
    by linarith+
  consider (lo) "y - of_int \<lfloor>y\<rfloor> < 1 / 2" | (hi) "1 / 2 < y - of_int \<lfloor>y\<rfloor>"
    | (tie) "y - of_int \<lfloor>y\<rfloor> = 1 / 2"
    by linarith
  then show ?thesis
  proof cases
    case lo
    then have "rint y = of_int \<lfloor>y\<rfloor>"
      by (simp add: rint_def Let_def)
    with f1 lo show ?thesis by linarith
  next
    case hi
    then have "rint y = of_int \<lfloor>y\<rfloor> + 1"
      by (simp add: rint_def Let_def)
    with f2 hi show ?thesis by linarith
  next
    case tie
    then have "rint y = of_int \<lfloor>y\<rfloor> \<or> rint y = of_int \<lfloor>y\<rfloor> + 1"
      by (simp add: rint_def Let_def)
    with tie show ?thesis by linarith
  qed
qed

lemma binade_exists: "x \<noteq> 0 \<Longrightarrow> 2 powi \<lfloor>log 2 \<bar>x\<bar>\<rfloor> \<le> \<bar>x\<bar> \<and> \<bar>x\<bar> < 2 powi (\<lfloor>log 2 \<bar>x\<bar>\<rfloor> + 1)"
proof -
  assume "x \<noteq> 0"
  then have pos: "0 < \<bar>x\<bar>" by simp
  have "(2::real) powr real_of_int \<lfloor>log 2 \<bar>x\<bar>\<rfloor> \<le> \<bar>x\<bar> \<and> \<bar>x\<bar> < 2 powr (real_of_int \<lfloor>log 2 \<bar>x\<bar>\<rfloor> + 1)"
    using floor_log_eq_powr_iff [of "\<bar>x\<bar>" 2 "\<lfloor>log 2 \<bar>x\<bar>\<rfloor>"] pos by simp
  then show ?thesis
    using powr_real_of_int' [of "2::real" "\<lfloor>log 2 \<bar>x\<bar>\<rfloor>"] powr_real_of_int' [of "2::real" "\<lfloor>log 2 \<bar>x\<bar>\<rfloor> + 1"]
    by simp
qed

lemma fp64_error: "\<bar>fp64 x - x\<bar> \<le> \<bar>x\<bar> / 2 ^ 53"
proof (cases "x = 0")
  case True
  then show ?thesis by (simp add: fp64_zero)
next
  case False
  define k where "k = \<lfloor>log 2 \<bar>x\<bar>\<rfloor>"
  define u where "u = (2::real) powi (k - 52)"
  have lo: "2 powi k \<le> \<bar>x\<bar>" and hi: "\<bar>x\<bar> < 2 powi (k + 1)"
    using binade_exists [OF False] by (simp_all add: k_def)
  have u: "0 < u"
    by (simp add: u_def)
  have uk: "u = 2 powi k / 2 ^ 52"
    by (simp add: u_def power_int_diff)
  have "fp64 x - x = (rint (x / u) - x / u) * u"
    using u by (simp add: fp64_in_binade [OF lo hi] u_def [symmetric] field_simps)
  then have "\<bar>fp64 x - x\<bar> = \<bar>rint (x / u) - x / u\<bar> * u"
    using u by (simp add: abs_mult)
  also have "\<dots> \<le> 1 / 2 * u"
    using rint_diff [of "x / u"] u by (intro mult_right_mono) simp_all
  also have "\<dots> \<le> 1 / 2 * (\<bar>x\<bar> / 2 ^ 52)"
    using lo by (simp add: uk divide_right_mono)
  finally show ?thesis
    by simp
qed

section \<open>Properties of calculate_cagr\<close>

lemma fp64_pos: "0 < x \<Longrightarrow> 0 < fp64 x"
proof -
  assume x: "0 < x"
  have "x / 2 ^ 53 < x"
    using x by (simp add: field_simps)
  with fp64_error [of x] x show ?thesis
    by (simp add: abs_if split: if_splits)
qed

lemma cagr_nonempty:
  "calculate_cagr (Some (p # ps)) years =
     (if years = 0 then Inl ZeroDivisionError
      else Inr (Some (np_round2 (fl_rnd (fl_mul (fl_rnd (fl_sub
             (fl_rnd (fl_pow (fl_rnd (fl_div (snd (last (p # ps))) (snd p))) (fp64 (1 / years))))
             (Fin 1))) (Fin 100))))))"
  by (simp add: calculate_cagr_def Let_def)


























text \<open>
  C2, as stated, fails: a single-point series is not absent but 0.00.
\<close>

theorem calculate_cagr_single_point_counterexample:
  "calculate_cagr (Some [(0::nat, Fin 5)]) 1 = Inr (Some (Fin 0))
   \<and> calculate_cagr (Some [(0::nat, Fin 5)]) 1 \<noteq> Inr None"
  by (simp add: cagr_nonempty fl_pow_def fl_sub_def fp64_one fp64_zero rint_zero)

text \<open>
  C2, amended. \<^verbatim>\<open>calculate_cagr\<close> returns absent exactly when the series is absent or
  empty. On a non-empty series, \<open>years = 0\<close> raises the division error; a single point
  with a finite non-zero close and \<open>years \<noteq> 0\<close> gives 0.00; and with \<open>years > 0\<close> a
  zero first close gives plus infinity when the last close is positive and NaN when it is
  zero.
\<close>

theorem calculate_cagr_degenerate:
  "(calculate_cagr prices years = Inr None \<longleftrightarrow> prices = None \<or> prices = Some [])
   \<and> (f \<noteq> [] \<longrightarrow> calculate_cagr (Some f) 0 = Inl ZeroDivisionError)
   \<and> (years \<noteq> 0 \<and> c \<noteq> 0 \<longrightarrow> calculate_cagr (Some [(t, Fin c)]) years = Inr (Some (Fin 0)))
   \<and> (0 < years \<and> f \<noteq> [] \<and> snd (hd f) = Fin 0 \<and> snd (last f) = Fin b \<and> 0 < b \<longrightarrow>
        calculate_cagr (Some f) years = Inr (Some PInf))
   \<and> (0 < years \<and> f \<noteq> [] \<and> snd (hd f) = Fin 0 \<and> snd (last f) = Fin 0 \<longrightarrow>
        calculate_cagr (Some f) years = Inr (Some NaN))"
proof (intro conjI impI)
  show "calculate_cagr prices years = Inr None \<longleftrightarrow> prices = None \<or> prices = Some []"
    by (auto simp: calculate_cagr_def Let_def split: option.splits list.splits)
next
  assume "f \<noteq> []"
  then show "calculate_cagr (Some f) 0 = Inl ZeroDivisionError"
    by (cases f) (simp_all add: cagr_nonempty)
next
  assume "years \<noteq> 0 \<and> c \<noteq> 0"
  then show "calculate_cagr (Some [(t, Fin c)]) years = Inr (Some (Fin 0))"
    by (simp add: cagr_nonempty fl_pow_def fl_sub_def fp64_one fp64_zero rint_zero)
next
  assume h: "0 < years \<and> f \<noteq> [] \<and> snd (hd f) = Fin 0 \<and> snd (last f) = Fin b \<and> 0 < b"
  then obtain p ps where f: "f = p # ps"
    by (cases f) auto
  have e: "0 < fp64 (1 / years)"
    using h by (intro fp64_pos) simp
  from h f e show "calculate_cagr (Some f) years = Inr (Some PInf)"
    by (simp add: cagr_nonempty fl_pow_def fl_sub_def inf_of_sign_def)
next
  assume h: "0 < years \<and> f \<noteq> [] \<and> snd (hd f) = Fin 0 \<and> snd (last f) = Fin 0"
  then obtain p ps where f: "f = p # ps"
    by (cases f) auto
  have e: "0 < fp64 (1 / years)"
    using h by (intro fp64_pos) simp
  from h f e show "calculate_cagr (Some f) years = Inr (Some NaN)"
    by (simp add: cagr_nonempty fl_pow_def fl_sub_def inf_of_sign_def)
qed

theorem calculate_cagr_degenerate_witness:
  "calculate_cagr (Some [(0::nat, Fin 3)]) 0 = Inl ZeroDivisionError
   \<and> calculate_cagr (Some [(0::nat, Fin 3)]) 2 = Inr (Some (Fin 0))
   \<and> calculate_cagr (Some [(0::nat, Fin 0), (1, Fin 4)]) 2 = Inr (Some PInf)
   \<and> calculate_cagr (Some [(0::nat, Fin 0), (1, Fin 0)]) 2 = Inr (Some NaN)
   \<and> calculate_cagr (None :: nat frame option) 2 = Inr None"
  using calculate_cagr_degenerate [of "None :: nat frame option" 2 "[(0::nat, Fin 3)]" 3 0 4]
    calculate_cagr_degenerate [of "None :: nat frame option" 2 "[(0::nat, Fin 0), (1, Fin 4)]" 3 0 4]
    calculate_cagr_degenerate [of "None :: nat frame option" 2 "[(0::nat, Fin 0), (1, Fin 0)]" 3 0 4]
  by auto

section \<open>Properties of the normalised prices\<close>

lemma norm_cell_idem:
  "c \<noteq> 0 \<Longrightarrow> fl_mul (fl_div (fl_mul (fl_div x (Fin c)) (Fin 100)) (Fin 100)) (Fin 100)
     = fl_mul (fl_div x (Fin c)) (Fin 100)"
  by (cases x) (auto simp: inf_of_sign_def sgn_if)

text \<open>
  C8. On a non-empty frame whose first close is finite and not zero, the normalised frame
  has \<open>close\<^sub>t / close\<^sub>0 * 100\<close> at every row with a finite close, its first close is
  exactly 100, and normalising it again gives the same frame.
\<close>

theorem normalize_rebase:
  "prices \<noteq> [] \<and> snd (hd prices) = Fin c \<and> c \<noteq> 0 \<longrightarrow>
     (\<exists>g. normalize_prices prices = Inr g
        \<and> (\<forall>i<length prices. \<forall>r. snd (prices ! i) = Fin r \<longrightarrow> snd (g ! i) = Fin (r / c * 100))
        \<and> snd (hd g) = Fin 100
        \<and> normalize_prices g = Inr g)"
proof (intro impI)
  assume h: "prices \<noteq> [] \<and> snd (hd prices) = Fin c \<and> c \<noteq> 0"
  then obtain p ps where f: "prices = p # ps" and p: "snd p = Fin c"
    by (cases prices) auto
  define g where "g = map (\<lambda>row. (fst row, fl_mul (fl_div (snd row) (Fin c)) (Fin 100))) prices"
  have n: "normalize_prices prices = Inr g"
    using f p by (simp add: normalize_prices_def g_def)
  have cells: "\<forall>i<length prices. \<forall>r. snd (prices ! i) = Fin r \<longrightarrow> snd (g ! i) = Fin (r / c * 100)"
    using h by (simp add: g_def)
  have first: "snd (hd g) = Fin 100"
    using h f p by (simp add: g_def)
  have "g \<noteq> []"
    using f by (simp add: g_def)
  then obtain q qs where gq: "g = q # qs"
    by (cases g) auto
  with first have q: "snd q = Fin 100"
    by simp
  have "map (\<lambda>row. (fst row, fl_mul (fl_div (snd row) (Fin 100)) (Fin 100))) g = g"
    using h by (simp add: g_def comp_def norm_cell_idem map_idI)
  then have idem: "normalize_prices g = Inr g"
    using gq q by (simp add: normalize_prices_def)
  from n cells first idem show "\<exists>g. normalize_prices prices = Inr g
        \<and> (\<forall>i<length prices. \<forall>r. snd (prices ! i) = Fin r \<longrightarrow> snd (g ! i) = Fin (r / c * 100))
        \<and> snd (hd g) = Fin 100
        \<and> normalize_prices g = Inr g"
    by blast
qed

theorem normalize_rebase_witness:
  "\<exists>g. normalize_prices [(0::nat, Fin 2), (1, Fin 3)] = Inr g
      \<and> snd (g ! 1) = Fin 150 \<and> snd (hd g) = Fin 100 \<and> normalize_prices g = Inr g"
  using normalize_rebase [of "[(0::nat, Fin 2), (1, Fin 3)]" 2]
  by fastforce

text \<open>
  C10. On a non-empty frame the normalised frame has one row per input row, with the same
  index in the same order.
\<close>

theorem normalize_shape:
  "prices \<noteq> [] \<longrightarrow>
     (\<exists>g. normalize_prices prices = Inr g \<and> length g = length prices \<and> map fst g = map fst prices)"
  by (cases prices) (simp_all add: normalize_prices_def comp_def)

theorem normalize_shape_witness:
  "\<exists>g. normalize_prices [(5::nat, Fin 2), (7, Fin 3)] = Inr g \<and> length g = 2 \<and> map fst g = [5, 7]"
  using normalize_shape [of "[(5::nat, Fin 2), (7, Fin 3)]"]
  by auto

lemma price_chart_normalized:
  "f1 \<noteq> [] \<Longrightarrow> f2 \<noteq> [] \<Longrightarrow>
   \<exists>g1 g2. price_chart (Some f1) (Some f2) = Inr (Some (g1, g2))
      \<and> normalize_prices f1 = Inr g1 \<and> normalize_prices f2 = Inr g2"
  by (cases f1; cases f2) (simp_all add: price_chart_def normalize_prices_def)

section \<open>Properties of display_comparison_metric\<close>

text \<open>
  C9. With both values present, the third card's badge is decided by
  \<open>diff = value1 - value2\<close>: positive when \<open>diff > 0\<close> unless \<open>reverse\<close> (then
  negative), the mirror when \<open>diff < 0\<close>, neutral otherwise, so also when \<open>diff = 0\<close>
  whatever \<open>reverse\<close> is. With a value absent nothing is rendered.
\<close>

theorem display_comparison_metric_classes:
  "display_comparison_metric (Some v1) (Some v2) title unit reverse =
     [\<lparr>heading = title, body = [Fmt2 v1, Txt unit], badge_class = None\<rparr>,
      \<lparr>heading = title, body = [Fmt2 v2, Txt unit], badge_class = None\<rparr>,
      \<lparr>heading = ''Diferencia'',
       body = (if fl_gt0 (fl_sub v1 v2) then [Txt ''+'', Fmt2 (fl_abs (fl_sub v1 v2)), Txt unit]
               else if fl_lt0 (fl_sub v1 v2) then [Txt ''-'', Fmt2 (fl_abs (fl_sub v1 v2)), Txt unit]
               else [Txt ''0'', Txt unit]),
       badge_class = Some (if fl_gt0 (fl_sub v1 v2) then (if reverse then ''negative'' else ''positive'')
                           else if fl_lt0 (fl_sub v1 v2) then (if reverse then ''positive'' else ''negative'')
                           else ''neutral'')\<rparr>]
   \<and> fl_sub (Fin a) (Fin b) = Fin (a - b)
   \<and> fl_gt0 (Fin (a - b)) = (0 < a - b)
   \<and> fl_lt0 (Fin (a - b)) = (a - b < 0)
   \<and> display_comparison_metric None value2 title unit reverse = []
   \<and> display_comparison_metric value1 None title unit reverse = []"
  by (simp add: display_comparison_metric_def fl_sub_def split: option.splits)

section \<open>Finite series\<close>

lemma fl_sum_fin: "fl_sum (map Fin rs) = Fin (sum_list rs)"
  by (induction rs) simp_all

lemma filter_not_nan_fin: "filter (\<lambda>x. \<not> is_nan x) (map Fin rs) = map Fin rs"
  by (induction rs) simp_all

lemma nanvar_fin:
  "nanvar ddof (map Fin rs) =
     (if length rs \<le> ddof then NaN
      else Fin (sum_list (map (\<lambda>r. (sum_list rs / real (length rs) - r)\<^sup>2) rs)
                  / real (length rs - ddof)))"
proof -
  have sq: "map (\<lambda>v. fl_mul (fl_sub (Fin m) v) (fl_sub (Fin m) v)) (map Fin rs)
              = map Fin (map (\<lambda>r. (m - r)\<^sup>2) rs)" for m
    by (simp add: fl_sub_def power2_eq_square)
  show ?thesis
    by (auto simp: nanvar_def Let_def filter_not_nan_fin fl_sum_fin sq simp del: map_map)
qed

lemma nanstd_fin:
  "ddof < length rs \<Longrightarrow>
   nanstd ddof (map Fin rs) =
     Fin (sqrt (sum_list (map (\<lambda>r. (sum_list rs / real (length rs) - r)\<^sup>2) rs)
                  / real (length rs - ddof)))"
proof -
  assume d: "ddof < length rs"
  have "0 \<le> sum_list (map (\<lambda>r. (sum_list rs / real (length rs) - r)\<^sup>2) rs)"
    by (rule sum_list_nonneg) auto
  then have "\<not> sum_list (map (\<lambda>r. (sum_list rs / real (length rs) - r)\<^sup>2) rs)
                  / real (length rs - ddof) < 0"
    using d by (simp add: not_less)
  with d show ?thesis
    by (simp add: nanstd_def nanvar_fin)
qed

lemma pct_from_fin:
  "p \<noteq> 0 \<Longrightarrow> list_all (\<lambda>r. r \<noteq> 0) rs \<Longrightarrow>
   pct_from (Fin p) (map Fin rs) = map Fin (map2 (\<lambda>prev x. x / prev - 1) (p # rs) rs)"
  by (induction rs arbitrary: p) (simp_all add: fl_sub_def)

lemma vol_single: "calculate_volatility (Some [(t, c)]) = Some NaN"
  by (simp add: calculate_volatility_def on_values_def dropna_def np_std_def nanstd_def nanvar_def)

lemma vol_two: "a \<noteq> 0 \<Longrightarrow> calculate_volatility (Some [(t, Fin a), (u, Fin b)]) = Some (Fin 0)"
  by (simp add: calculate_volatility_def on_values_def dropna_def np_std_def nanstd_def nanvar_def fl_sub_def round2_zero)


lemma add_one_pct:
  "map (\<lambda>x. fl_add x (Fin 1)) (map Fin (map2 (\<lambda>prev x. x / prev - 1) ps rs))
     = map Fin (map2 (\<lambda>prev x. x / prev) ps rs)"
  by (induction rs arbitrary: ps) (auto simp: zip_Cons1 split: list.splits)

lemma cumprod_from_ratios:
  "p \<noteq> 0 \<Longrightarrow> list_all (\<lambda>r. r \<noteq> 0) rs \<Longrightarrow>
   cumprod_from (Fin (p / q)) (map Fin (map2 (\<lambda>prev x. x / prev) (p # rs) rs))
     = map Fin (map (\<lambda>x. x / q) rs)"
  by (induction rs arbitrary: p) simp_all

lemma cumulative_fin:
  assumes "p \<noteq> 0" "list_all (\<lambda>r. r \<noteq> 0) rs"
  shows "cumprod (map (\<lambda>x. fl_add x (Fin 1)) (pct_change (map Fin (p # rs))))
           = NaN # map Fin (map (\<lambda>x. x / p) rs)"
proof -
  have "cumprod_from (Fin (p / p)) (map Fin (map2 (\<lambda>prev x. x / prev) (p # rs) rs))
          = map Fin (map (\<lambda>x. x / p) rs)"
    using assms by (rule cumprod_from_ratios)
  then show ?thesis
    using assms by (simp add: cumprod_def pct_from_fin add_one_pct del: map_map)
qed

lemma drawdown_fin:
  "m \<noteq> 0 \<Longrightarrow> list_all (\<lambda>g. g \<noteq> 0) gs \<Longrightarrow>
   list_all is_fin (map2 (\<lambda>c p. fl_mul (fl_sub (fl_div c p) (Fin 1)) (Fin 100)) (map Fin gs)
      (expanding_max_from (Some (Fin m)) (map Fin gs)))"
proof (induction gs arbitrary: m)
  case Nil
  then show ?case by simp
next
  case (Cons g gs)
  have mx: "fl_max (Fin m) (Fin g) = Fin (max m g)"
    by (simp add: fl_max_def max_def)
  have nz: "max m g \<noteq> 0"
    using Cons.prems by (auto simp: max_def)
  have "list_all is_fin (map2 (\<lambda>c p. fl_mul (fl_sub (fl_div c p) (Fin 1)) (Fin 100)) (map Fin gs)
      (expanding_max_from (Some (Fin (max m g))) (map Fin gs)))"
    using Cons.IH [OF nz] Cons.prems by simp
  then show ?case
    using nz by (simp add: mx Let_def fl_sub_def)
qed

lemma drawdown_sorted:
  "0 < m \<Longrightarrow> sorted (m # gs) \<Longrightarrow>
   map2 (\<lambda>c p. fl_mul (fl_sub (fl_div c p) (Fin 1)) (Fin 100)) (map Fin gs)
      (expanding_max_from (Some (Fin m)) (map Fin gs)) = map (\<lambda>_. Fin 0) gs"
proof (induction gs arbitrary: m)
  case Nil
  then show ?case by simp
next
  case (Cons g gs)
  then have le: "m \<le> g" and g: "0 < g" and s: "sorted (g # gs)"
    by auto
  have mx: "fl_max (Fin m) (Fin g) = Fin g"
    using le by (simp add: fl_max_def)
  show ?case
    using Cons.IH [OF g s] g by (simp add: mx Let_def fl_sub_def)
qed

lemma foldl_min_fin:
  "list_all is_fin ds \<Longrightarrow> \<exists>v. foldl fl_min (Fin a) ds = Fin v \<and> v \<le> a"
proof (induction ds arbitrary: a)
  case Nil
  then show ?case by simp
next
  case (Cons d ds)
  then obtain b where d: "d = Fin b"
    by (cases d) auto
  have mn: "fl_min (Fin a) (Fin b) = Fin (min a b)"
    by (simp add: fl_min_def min_def)
  from Cons.prems have "list_all is_fin ds"
    by simp
  from Cons.IH [OF this, of "min a b"] obtain v where "foldl fl_min (Fin (min a b)) ds = Fin v" "v \<le> min a b"
    by blast
  then show ?case
    by (auto simp: d mn)
qed

lemma foldl_min_zeros: "foldl fl_min (Fin 0) (map (\<lambda>_. Fin 0) gs) = Fin 0"
  by (induction gs) (simp_all add: fl_min_def)

lemma rint_nonpos: "x \<le> 0 \<Longrightarrow> rint x \<le> 0"
proof -
  assume x: "x \<le> 0"
  then have f: "\<lfloor>x\<rfloor> \<le> 0"
    by (simp add: floor_le_zero)
  show ?thesis
  proof (cases "\<lfloor>x\<rfloor> = 0")
    case True
    then have "x = 0"
      using x by (metis floor_le_iff le_floor_iff of_int_0 order_antisym order_refl)
    then show ?thesis by (simp add: rint_zero)
  next
    case False
    with f have "\<lfloor>x\<rfloor> + 1 \<le> 0" by linarith
    then have "real_of_int (\<lfloor>x\<rfloor> + 1) \<le> 0" "real_of_int \<lfloor>x\<rfloor> \<le> 0"
      using f by (simp_all only: of_int_le_0_iff)
    then show ?thesis
      by (auto simp: rint_def Let_def)
  qed
qed

lemma round2_nonpos: "x \<le> 0 \<Longrightarrow> round2 x \<le> 0"
  using rint_nonpos [of "x * 100"] by (simp add: round2_def mult_le_0_iff)


lemma filter_not_nan_is_fin: "list_all is_fin ds \<Longrightarrow> filter (\<lambda>x. \<not> is_nan x) ds = ds"
proof (induction ds)
  case Nil
  then show ?case by simp
next
  case (Cons d ds)
  then show ?case by (cases d) simp_all
qed

lemma sorted_divide: "sorted xs \<Longrightarrow> 0 < p \<Longrightarrow> sorted (map (\<lambda>x. x / p) xs)"
  for p :: real
  by (induction xs) (auto simp: divide_right_mono)

lemma max_drawdown_nonempty:
  "f \<noteq> [] \<Longrightarrow>
   calculate_max_drawdown (Some f) =
     Some (fl_round2 (nanmin
       (map2 (\<lambda>c p. fl_mul (fl_sub (fl_div c p) (Fin 1)) (Fin 100))
          (cumprod (map (\<lambda>x. fl_add x (Fin 1)) (pct_change (map snd f))))
          (expanding_max (cumprod (map (\<lambda>x. fl_add x (Fin 1)) (pct_change (map snd f))))))))"
  by (cases f) (simp_all add: calculate_max_drawdown_def Let_def)

lemma max_drawdown_unfold:
  assumes f: "map snd f = map Fin (p # g # rs)"
    and nz: "p \<noteq> 0" "g \<noteq> 0" "list_all (\<lambda>r. r \<noteq> 0) rs"
  shows "calculate_max_drawdown (Some f) =
           Some (fl_round2 (foldl fl_min (Fin 0)
             (filter (\<lambda>x. \<not> is_nan x)
               (map2 (\<lambda>c p. fl_mul (fl_sub (fl_div c p) (Fin 1)) (Fin 100))
                  (map Fin (map (\<lambda>x. x / p) rs))
                  (expanding_max_from (Some (Fin (g / p))) (map Fin (map (\<lambda>x. x / p) rs)))))))"
proof -
  from f have ne: "f \<noteq> []"
    by auto
  have cum: "cumprod (map (\<lambda>x. fl_add x (Fin 1)) (pct_change (map snd f)))
               = NaN # Fin (g / p) # map Fin (map (\<lambda>x. x / p) rs)"
    using cumulative_fin [of p "g # rs"] nz by (simp add: f del: map_map)
  have first: "fl_mul (fl_sub (fl_div (Fin (g / p)) (Fin (g / p))) (Fin 1)) (Fin 100) = Fin 0"
    using nz by (simp add: fl_sub_def)
  show ?thesis
    unfolding max_drawdown_nonempty [OF ne] cum expanding_max_def
    using nz by (simp add: Let_def nanmin_def fl_sub_def del: map_map)
qed

section \<open>Properties of calculate_volatility on short series\<close>

text \<open>
  C4, as stated, fails: on a single-point series the result is not absent but NaN.
\<close>

theorem calculate_volatility_single_point_counterexample:
  "calculate_volatility (Some [(0::nat, Fin 5)]) = Some NaN
   \<and> calculate_volatility (Some [(0::nat, Fin 5)]) \<noteq> None"
  by (simp add: vol_single)

text \<open>
  C4, amended. \<^verbatim>\<open>calculate_volatility\<close> has no raising step (its result type has no
  error) and returns absent exactly when the series is absent or empty. On a single-point
  series, which has no return, it gives NaN; on two points with a finite non-zero first close
  and a finite second one, which have one return, it gives 0.00.
\<close>

theorem calculate_volatility_degenerate:
  "(calculate_volatility prices = None \<longleftrightarrow> prices = None \<or> prices = Some [])
   \<and> calculate_volatility (Some [(t, c)]) = Some NaN
   \<and> (a \<noteq> 0 \<longrightarrow> calculate_volatility (Some [(t, Fin a), (u, Fin b)]) = Some (Fin 0))"
proof (intro conjI impI)
  show "calculate_volatility prices = None \<longleftrightarrow> prices = None \<or> prices = Some []"
    by (auto simp: calculate_volatility_def Let_def split: option.splits list.splits)
next
  show "calculate_volatility (Some [(t, c)]) = Some NaN"
    by (rule vol_single)
next
  assume "a \<noteq> 0"
  then show "calculate_volatility (Some [(t, Fin a), (u, Fin b)]) = Some (Fin 0)"
    by (rule vol_two)
qed

theorem calculate_volatility_degenerate_witness:
  "calculate_volatility (None :: nat frame option) = None
   \<and> calculate_volatility (Some [(0::nat, Fin 7)]) = Some NaN
   \<and> calculate_volatility (Some [(0::nat, Fin 3), (1, Fin 4)]) = Some (Fin 0)"
  using calculate_volatility_degenerate [of "None :: nat frame option" 0 "Fin 7" 3 1 4]
  by auto

section \<open>Properties of calculate_max_drawdown\<close>

text \<open>
  C5. On a series of at least two finite non-zero closes \<^verbatim>\<open>calculate_max_drawdown\<close>
  returns a finite value that is at most 0; on a series of at least two positive closes that
  never decrease it returns exactly 0.00.
\<close>

theorem max_drawdown_nonpos:
  "(map snd f = map Fin rs \<and> 2 \<le> length rs \<and> list_all (\<lambda>r. r \<noteq> 0) rs \<longrightarrow>
      (\<exists>v. calculate_max_drawdown (Some f) = Some (Fin v) \<and> v \<le> 0))
   \<and> (map snd f = map Fin rs \<and> 2 \<le> length rs \<and> list_all (\<lambda>r. 0 < r) rs \<and> sorted rs \<longrightarrow>
      calculate_max_drawdown (Some f) = Some (Fin 0))"
proof (intro conjI impI)
  assume h: "map snd f = map Fin rs \<and> 2 \<le> length rs \<and> list_all (\<lambda>r. r \<noteq> 0) rs"
  then obtain p g rs' where rs: "rs = p # g # rs'"
    by (cases rs; cases "tl rs") auto
  define gs where "gs = map (\<lambda>x. x / p) rs'"
  have nz: "p \<noteq> 0" "g \<noteq> 0" "list_all (\<lambda>r. r \<noteq> 0) rs'"
    using h rs by simp_all
  have f: "map snd f = map Fin (p # g # rs')"
    using h rs by simp
  have gnz: "g / p \<noteq> 0" "list_all (\<lambda>r. r \<noteq> 0) gs"
    using nz by (simp_all add: list_all_iff gs_def)
  have fin: "list_all is_fin (map2 (\<lambda>c p. fl_mul (fl_sub (fl_div c p) (Fin 1)) (Fin 100)) (map Fin gs)
      (expanding_max_from (Some (Fin (g / p))) (map Fin gs)))"
    using gnz by (rule drawdown_fin)
  from foldl_min_fin [OF fin, of 0] obtain v where
    v: "foldl fl_min (Fin 0) (map2 (\<lambda>c p. fl_mul (fl_sub (fl_div c p) (Fin 1)) (Fin 100)) (map Fin gs)
      (expanding_max_from (Some (Fin (g / p))) (map Fin gs))) = Fin v" and v0: "v \<le> 0"
    by blast
  have "calculate_max_drawdown (Some f) = Some (Fin (round2 v))"
    unfolding max_drawdown_unfold [OF f nz] gs_def [symmetric] filter_not_nan_is_fin [OF fin] v
    by simp
  moreover have "round2 v \<le> 0"
    using v0 by (rule round2_nonpos)
  ultimately show "\<exists>v. calculate_max_drawdown (Some f) = Some (Fin v) \<and> v \<le> 0"
    by blast
next
  assume h: "map snd f = map Fin rs \<and> 2 \<le> length rs \<and> list_all (\<lambda>r. 0 < r) rs \<and> sorted rs"
  then obtain p g rs' where rs: "rs = p # g # rs'"
    by (cases rs; cases "tl rs") auto
  define gs where "gs = map (\<lambda>x. x / p) rs'"
  have pos: "0 < p" "0 < g" "list_all (\<lambda>r. 0 < r) rs'"
    using h rs by simp_all
  then have nz: "p \<noteq> 0" "g \<noteq> 0" "list_all (\<lambda>r. r \<noteq> 0) rs'"
    by (auto simp: list_all_iff)
  have f: "map snd f = map Fin (p # g # rs')"
    using h rs by simp
  have "sorted (g # rs')"
    using h rs by simp
  then have "sorted (map (\<lambda>x. x / p) (g # rs'))"
    using pos(1) by (rule sorted_divide)
  then have srt: "sorted (g / p # gs)"
    by (simp add: gs_def)
  have gp: "0 < g / p"
    using pos by simp
  have z: "map2 (\<lambda>c p. fl_mul (fl_sub (fl_div c p) (Fin 1)) (Fin 100)) (map Fin gs)
      (expanding_max_from (Some (Fin (g / p))) (map Fin gs)) = map (\<lambda>_. Fin 0) gs"
    using gp srt by (rule drawdown_sorted)
  have nn: "filter (\<lambda>x. \<not> is_nan x) (map (\<lambda>_. Fin 0) gs) = map (\<lambda>_. Fin 0) gs"
    by (induction gs) simp_all
  show "calculate_max_drawdown (Some f) = Some (Fin 0)"
    unfolding max_drawdown_unfold [OF f nz] gs_def [symmetric] z nn foldl_min_zeros
    by (simp add: round2_zero)
qed

theorem max_drawdown_nonpos_witness:
  "(\<exists>v. calculate_max_drawdown (Some [(0::nat, Fin 100), (1, Fin 120), (2, Fin 60)]) = Some (Fin v)
        \<and> v \<le> 0)
   \<and> calculate_max_drawdown (Some [(0::nat, Fin 1), (1, Fin 2), (2, Fin 2)]) = Some (Fin 0)"
  using max_drawdown_nonpos [of "[(0::nat, Fin 100), (1, Fin 120), (2, Fin 60)]" "[100, 120, 60]"]
    max_drawdown_nonpos [of "[(0::nat, Fin 1), (1, Fin 2), (2, Fin 2)]" "[1, 2, 2]"]
  by simp

section \<open>Properties of the rolling volatility\<close>

lemma dropna_zip_fin:
  "length ts = length rs \<Longrightarrow> dropna (zip ts (map Fin rs)) = zip ts (map Fin rs)"
  by (induction ts rs rule: list_induct2) (simp_all add: dropna_def)

lemma returns_fin:
  assumes f: "map snd f = map Fin (p # rs)"
    and nz: "p \<noteq> 0" "list_all (\<lambda>r. r \<noteq> 0) rs"
  shows "dropna (on_values pct_change f)
           = zip (tl (map fst f)) (map Fin (map2 (\<lambda>prev x. x / prev - 1) (p # rs) rs))"
proof -
  from f obtain x xs where fx: "f = x # xs" and xs: "map snd xs = map Fin rs"
    by (cases f) auto
  from xs have len: "length (map fst xs) = length (map2 (\<lambda>prev x. x / prev - 1) (p # rs) rs)"
    using map_eq_imp_length_eq [OF xs] by simp
  have "dropna (on_values pct_change f)
          = dropna (zip (map fst xs) (map Fin (map2 (\<lambda>prev x. x / prev - 1) (p # rs) rs)))"
    using f nz by (simp add: on_values_def fx pct_from_fin dropna_def del: map_map)
  also have "\<dots> = zip (map fst xs) (map Fin (map2 (\<lambda>prev x. x / prev - 1) (p # rs) rs))"
    using len by (rule dropna_zip_fin)
  finally show ?thesis
    by (simp add: fx)
qed

lemma rolling_std_fin:
  assumes w: "2 \<le> w"
  shows "rolling_std w (map Fin rs) =
           map (\<lambda>i. if Suc i < w then NaN
                    else nanstd 1 (map Fin (take w (drop (Suc i - w) rs))))
             [0..<length rs]"
  unfolding rolling_std_def
proof (simp only: length_map, rule map_cong [OF refl])
  fix i assume "i \<in> set [0..<length rs]"
  then have i: "i < length rs" by simp
  show "(if Suc i < w then NaN
         else let win = take w (drop (Suc i - w) (map Fin rs))
              in if length (filter (\<lambda>x. \<not> is_nan x) win) < w then NaN else nanstd 1 win)
      = (if Suc i < w then NaN else nanstd 1 (map Fin (take w (drop (Suc i - w) rs))))"
  proof (cases "Suc i < w")
    case True
    then show ?thesis by simp
  next
    case False
    have win: "take w (drop (Suc i - w) (map Fin rs)) = map Fin (take w (drop (Suc i - w) rs))"
      by (simp add: take_map drop_map)
    have "length (take w (drop (Suc i - w) rs)) = w"
      using False i by simp
    then show ?thesis
      using False by (simp add: win filter_not_nan_fin Let_def del: take_map drop_map)
  qed
qed

lemma nanstd_is_fin: "ddof < length rs \<Longrightarrow> is_fin (nanstd ddof (map Fin rs))"
  by (simp add: nanstd_fin)

lemma scale_nan_iff: "is_nan (fl_mul (fl_mul v (Fin (sqrt 252))) (Fin 100)) \<longleftrightarrow> is_nan v"
  by (cases v) (simp_all add: inf_of_sign_def)

lemma filter_zip_snd:
  "length ts = length vs \<Longrightarrow>
   length (filter (\<lambda>row. P (snd row)) (zip ts vs)) = length (filter P vs)"
  by (induction ts vs rule: list_induct2) simp_all

lemma count_from: "length (filter (\<lambda>i. k \<le> i) [0..<n]) = n - k"
  by (induction n) (auto simp: Suc_diff_le)

lemma rolling_vol_fin:
  assumes f: "map snd f = map Fin (p # rs)"
    and nz: "p \<noteq> 0" "list_all (\<lambda>r. r \<noteq> 0) rs"
  shows "rolling_vol f =
           zip (tl (map fst f))
             (map (\<lambda>i. fl_mul (fl_mul
                      (if Suc i < 63 then NaN
                       else nanstd 1 (map Fin (take 63 (drop (Suc i - 63)
                              (map2 (\<lambda>prev x. x / prev - 1) (p # rs) rs)))))
                      (Fin (sqrt 252))) (Fin 100))
                [0..<length rs])"
proof -
  define rel where "rel = map2 (\<lambda>prev x. x / prev - 1) (p # rs) rs"
  have lrel: "length rel = length rs"
    by (simp add: rel_def)
  have len: "length (tl (map fst f)) = length (map Fin rel)"
    using map_eq_imp_length_eq [OF f] lrel by simp
  have ret: "dropna (on_values pct_change f) = zip (tl (map fst f)) (map Fin rel)"
    unfolding rel_def by (rule returns_fin [OF f nz])
  have "rolling_vol f =
     on_values (\<lambda>xs. map (\<lambda>v. fl_mul (fl_mul v (Fin (sqrt 252))) (Fin 100)) (rolling_std 63 xs))
       (zip (tl (map fst f)) (map Fin rel))"
    by (simp only: rolling_vol_def ret Let_def)
  also have "\<dots> = zip (tl (map fst f))
      (map (\<lambda>v. fl_mul (fl_mul v (Fin (sqrt 252))) (Fin 100)) (rolling_std 63 (map Fin rel)))"
    unfolding on_values_def using len by (simp only: map_fst_zip map_snd_zip)
  also have "rolling_std 63 (map Fin rel) =
      map (\<lambda>i. if Suc i < 63 then NaN else nanstd 1 (map Fin (take 63 (drop (Suc i - 63) rel))))
        [0..<length rel]"
    by (rule rolling_std_fin) simp
  finally show ?thesis
    unfolding lrel rel_def [symmetric] by (simp only: map_map comp_def)
qed

lemma plot_volatility_comparison_traces:
  "f1 \<noteq> [] \<Longrightarrow> f2 \<noteq> [] \<Longrightarrow>
   plot_volatility_comparison (Some f1) (Some f2) name1 name2 =
     Some (\<lparr>name = name1, points = rolling_vol f1\<rparr>, \<lparr>name = name2, points = rolling_vol f2\<rparr>)"
  by (simp add: plot_volatility_comparison_def)

text \<open>
  C6, as stated, fails: three closes give two returns, fewer than the window, and the rolling
  series is not empty but has two rows, both NaN.
\<close>

theorem rolling_vol_length_counterexample:
  "rolling_vol [(0::nat, Fin 1), (1, Fin 2), (2, Fin 3)] = [(1, NaN), (2, NaN)]
   \<and> int (length (rolling_vol [(0::nat, Fin 1), (1, Fin 2), (2, Fin 3)])) \<noteq> max 0 (2 - 63 + 1)
   \<and> rolling_vol [(0::nat, Fin 1), (1, Fin 2), (2, Fin 3)] \<noteq> []"
proof -
  have "rolling_vol [(0::nat, Fin 1), (1, Fin 2), (2, Fin 3)] = [(1, NaN), (2, NaN)]"
    using rolling_vol_fin [of "[(0::nat, Fin 1), (1, Fin 2), (2, Fin 3)]" 1 "[2, 3]"]
    by (simp add: upt_rec)
  then show ?thesis
    by simp
qed

lemma rolling_vol_empty: "rolling_vol [] = []"
  by (simp add: rolling_vol_def on_values_def dropna_def rolling_std_def)

text \<open>
  C6, amended. On a series of finite non-zero closes the rolling volatility has exactly one
  row per return, indexed by the return's date, so it is empty only when there is no return.
  The rows before the 63rd are NaN and the others hold a value, so the number of rows that
  hold a value is \<open>max 0 (returns - 63 + 1)\<close>: with fewer than 63 returns every row is NaN.
\<close>

theorem rolling_vol_shape:
  "map snd f = map Fin rs \<and> list_all (\<lambda>r. r \<noteq> 0) rs \<longrightarrow>
     length (rolling_vol f) = length f - 1
     \<and> map fst (rolling_vol f) = tl (map fst f)
     \<and> (\<forall>i<length f - 1. is_nan (snd (rolling_vol f ! i)) = (i < 62))
     \<and> int (length (filter (\<lambda>row. \<not> is_nan (snd row)) (rolling_vol f)))
         = max 0 (int (length f - 1) - 63 + 1)"
proof (intro impI)
  assume h: "map snd f = map Fin rs \<and> list_all (\<lambda>r. r \<noteq> 0) rs"
  show "length (rolling_vol f) = length f - 1
     \<and> map fst (rolling_vol f) = tl (map fst f)
     \<and> (\<forall>i<length f - 1. is_nan (snd (rolling_vol f ! i)) = (i < 62))
     \<and> int (length (filter (\<lambda>row. \<not> is_nan (snd row)) (rolling_vol f)))
         = max 0 (int (length f - 1) - 63 + 1)"
  proof (cases rs)
    case Nil
    with h have "f = []"
      by simp
    then show ?thesis
      by (simp add: rolling_vol_empty)
  next
    case (Cons p rs')
    have f: "map snd f = map Fin (p # rs')" and nz: "p \<noteq> 0" "list_all (\<lambda>r. r \<noteq> 0) rs'"
      using h Cons by simp_all
    define rel where "rel = map2 (\<lambda>prev x. x / prev - 1) (p # rs') rs'"
    define h where "h = (\<lambda>i. fl_mul (fl_mul
                      (if Suc i < 63 then NaN
                       else nanstd 1 (map Fin (take 63 (drop (Suc i - 63) rel))))
                      (Fin (sqrt 252))) (Fin 100))"
    have rv: "rolling_vol f = zip (tl (map fst f)) (map h [0..<length rs'])"
      unfolding h_def rel_def by (rule rolling_vol_fin [OF f nz])
    have lenf: "length f - 1 = length rs'"
      using map_eq_imp_length_eq [OF f] by simp
    have len: "length (tl (map fst f)) = length (map h [0..<length rs'])"
      using lenf by simp
    have lrel: "length rel = length rs'"
      by (simp add: rel_def)
    have hn: "is_nan (h i) = (i < 62)" if "i < length rs'" for i
    proof (cases "i < 62")
      case True
      then show ?thesis by (simp add: h_def)
    next
      case False
      then have "length (take 63 (drop (Suc i - 63) rel)) = 63"
        using that lrel by simp
      then have "is_fin (nanstd 1 (map Fin (take 63 (drop (Suc i - 63) rel))))"
        by (intro nanstd_is_fin) simp
      then have "\<not> is_nan (nanstd 1 (map Fin (take 63 (drop (Suc i - 63) rel))))"
        by (cases "nanstd 1 (map Fin (take 63 (drop (Suc i - 63) rel)))") simp_all
      with False show ?thesis
        by (simp add: h_def scale_nan_iff)
    qed
    have idx: "map fst (rolling_vol f) = tl (map fst f)"
      unfolding rv using len by (simp del: length_map length_tl)
    have ln: "length (rolling_vol f) = length f - 1"
      unfolding rv using lenf by simp
    have nth: "\<forall>i<length f - 1. is_nan (snd (rolling_vol f ! i)) = (i < 62)"
      unfolding rv using lenf hn by simp
    have "filter (\<lambda>i. \<not> is_nan (h i)) [0..<length rs'] = filter (\<lambda>i. 62 \<le> i) [0..<length rs']"
      by (rule filter_cong) (auto simp: hn)
    then have "length (filter (\<lambda>v. \<not> is_nan v) (map h [0..<length rs'])) = length rs' - 62"
      by (simp add: filter_map comp_def count_from)
    then have "length (filter (\<lambda>row. \<not> is_nan (snd row)) (rolling_vol f)) = length rs' - 62"
      unfolding rv using filter_zip_snd [OF len, of "\<lambda>v. \<not> is_nan v"] by simp
    then have cnt: "int (length (filter (\<lambda>row. \<not> is_nan (snd row)) (rolling_vol f)))
         = max 0 (int (length f - 1) - 63 + 1)"
      using lenf by (simp add: max_def)
    from ln idx nth cnt show ?thesis
      by blast
  qed
qed

theorem rolling_vol_shape_witness:
  "length (rolling_vol (zip [0..<64::nat] (replicate 63 (Fin 1) @ [Fin 2]))) = 63
   \<and> is_nan (snd (rolling_vol (zip [0..<64::nat] (replicate 63 (Fin 1) @ [Fin 2])) ! 61))
   \<and> \<not> is_nan (snd (rolling_vol (zip [0..<64::nat] (replicate 63 (Fin 1) @ [Fin 2])) ! 62))
   \<and> length (filter (\<lambda>row. \<not> is_nan (snd row))
        (rolling_vol (zip [0..<64::nat] (replicate 63 (Fin 1) @ [Fin 2])))) = 1"
proof -
  let ?f = "zip [0..<64::nat] (replicate 63 (Fin 1) @ [Fin 2])"
  let ?rs = "replicate 63 (1::real) @ [2]"
  have lf: "length ?f = 64"
    by simp
  have h: "map snd ?f = map Fin ?rs \<and> list_all (\<lambda>r. r \<noteq> 0) ?rs"
    by (simp add: list_all_iff)
  note T = rolling_vol_shape [of ?f ?rs, rule_format, OF h]
  from T have ln: "length (rolling_vol ?f) = 63"
    by simp
  from T have nth: "\<forall>i<63. is_nan (snd (rolling_vol ?f ! i)) = (i < 62)"
    by simp
  from T have cnt: "int (length (filter (\<lambda>row. \<not> is_nan (snd row)) (rolling_vol ?f))) = 1"
    by simp
  from nth have "is_nan (snd (rolling_vol ?f ! 61))" "\<not> is_nan (snd (rolling_vol ?f ! 62))"
    by simp_all
  with ln cnt show ?thesis
    by simp
qed

section \<open>The two standard deviations\<close>

lemma returns_values_fin:
  assumes f: "map snd f = map Fin (p # rs)"
    and nz: "p \<noteq> 0" "list_all (\<lambda>r. r \<noteq> 0) rs"
  shows "map snd (dropna (on_values pct_change f))
           = map Fin (map2 (\<lambda>prev x. x / prev - 1) (p # rs) rs)"
proof -
  have "length (tl (map fst f)) = length (map Fin (map2 (\<lambda>prev x. x / prev - 1) (p # rs) rs))"
    using map_eq_imp_length_eq [OF f] by simp
  then show ?thesis
    unfolding returns_fin [OF f nz] by (rule map_snd_zip)
qed

lemma calculate_volatility_fin:
  assumes f: "map snd f = map Fin (p # rs)"
    and nz: "p \<noteq> 0" "list_all (\<lambda>r. r \<noteq> 0) rs"
  shows "calculate_volatility (Some f) =
           Some (fl_round2 (fl_mul (fl_mul
             (nanstd 0 (map Fin (map2 (\<lambda>prev x. x / prev - 1) (p # rs) rs)))
             (Fin (sqrt 252))) (Fin 100)))"
proof -
  from f obtain x xs where fx: "f = x # xs"
    by (cases f) auto
  have "calculate_volatility (Some f) =
          Some (fl_round2 (fl_mul (fl_mul
             (np_std (map snd (dropna (on_values pct_change f))))
             (Fin (sqrt 252))) (Fin 100)))"
    unfolding fx by (simp add: calculate_volatility_def Let_def)
  then show ?thesis
    by (simp only: returns_values_fin [OF f nz] np_std_def)
qed

lemma ratios_const_then:
  "map2 g (a # replicate n a @ [b]) (replicate n a @ [b]) = replicate n (g a a) @ [g a b]"
  by (induction n) simp_all

lemma sqrt_square_eq: "0 \<le> r \<Longrightarrow> x = r * r \<Longrightarrow> sqrt x = r"
  by (simp add: real_sqrt_mult)


lemma step_frame_closes:
  "map snd (zip [0..<Suc (Suc n)] (replicate (Suc n) (Fin 1) @ [Fin 2]))
     = map Fin (1 # replicate n 1 @ [2])"
proof -
  have "length [0..<Suc (Suc n)] = length (replicate (Suc n) (Fin 1) @ [Fin 2])"
    by simp
  then have "map snd (zip [0..<Suc (Suc n)] (replicate (Suc n) (Fin 1) @ [Fin 2]))
               = replicate (Suc n) (Fin 1) @ [Fin 2]"
    by (rule map_snd_zip)
  then show ?thesis
    by simp
qed

lemma step_returns:
  "map2 (\<lambda>prev x. x / prev - 1) (1 # replicate n 1 @ [2]) (replicate n 1 @ [2])
     = replicate n 0 @ [1::real]"
  using ratios_const_then [of "\<lambda>prev x. x / prev - 1" "1::real" n 2] by simp

lemma step_spread:
  "sum_list (map (\<lambda>r. (sum_list (replicate n 0 @ [1]) / real (length (replicate n 0 @ [1::real])) - r)\<^sup>2)
      (replicate n 0 @ [1::real])) = real n / (real n + 1)"
proof -
  define m where "m = real n + 1"
  have m: "m \<noteq> 0"
    by (simp add: m_def add_nonneg_eq_0_iff)
  have a: "1 / m - 1 = - (real n / m)"
    using m by (simp add: m_def field_simps)
  have "real n * (1 / m)\<^sup>2 + (1 / m - 1)\<^sup>2 = (real n + (real n)\<^sup>2) / m\<^sup>2"
    by (simp add: a power_divide add_divide_distrib)
  also have "real n + (real n)\<^sup>2 = real n * m"
    by (simp add: m_def power2_eq_square algebra_simps)
  also have "real n * m / m\<^sup>2 = real n / m"
    using m by (simp add: power2_eq_square)
  finally have "real n * (1 / (real n + 1))\<^sup>2 + (1 / (real n + 1) - 1)\<^sup>2 = real n / (real n + 1)"
    by (simp only: m_def)
  then show ?thesis
    by (simp add: sum_list_replicate add.commute)
qed

lemma step_nanstd:
  "ddof < Suc n \<Longrightarrow>
   nanstd ddof (map Fin (replicate n 0 @ [1])) = Fin (sqrt (real n / (real n + 1) / real (Suc n - ddof)))"
  using nanstd_fin [of ddof "replicate n 0 @ [1]"] by (simp only: step_spread) simp

lemma step_volatility:
  "calculate_volatility (Some (zip [0..<Suc (Suc n)] (replicate (Suc n) (Fin 1) @ [Fin 2])))
     = Some (Fin (round2 (sqrt (real n / (real n + 1) / real (Suc n)) * sqrt 252 * 100)))"
proof -
  have nz: "(1::real) \<noteq> 0" "list_all (\<lambda>r. r \<noteq> 0) (replicate n (1::real) @ [2])"
    by (simp_all add: list_all_iff)
  show ?thesis
    unfolding calculate_volatility_fin [OF step_frame_closes nz] step_returns
    using step_nanstd [of 0 n] by simp
qed

lemma step_spec_volatility:
  "0 < n \<Longrightarrow>
   spec_compute_volatility (zip [0..<Suc (Suc n)] (replicate (Suc n) (Fin 1) @ [Fin 2]))
     = Some (Fin (round2 (sqrt (real n / (real n + 1) / real n) * sqrt 252 * 100)))"
proof -
  assume n: "0 < n"
  have nz: "(1::real) \<noteq> 0" "list_all (\<lambda>r. r \<noteq> 0) (replicate n (1::real) @ [2])"
    by (simp_all add: list_all_iff)
  show ?thesis
    unfolding spec_compute_volatility_def returns_values_fin [OF step_frame_closes nz] step_returns
    using step_nanstd [of 1 n] n by (simp add: Let_def)
qed

lemma round2_near:
  "of_int n - 1 / 2 < x * 100 \<Longrightarrow> x * 100 < of_int n + 1 / 2 \<Longrightarrow> round2 x = of_int n / 100"
  by (simp add: round2_def rint_near)

lemma step_rolling_last:
  "snd (rolling_vol (zip [0..<Suc (Suc 62)] (replicate (Suc 62) (Fin 1) @ [Fin 2])) ! 62)
     = Fin (sqrt (1 / 63) * sqrt 252 * 100)"
proof -
  let ?f = "zip [0..<Suc (Suc 62)] (replicate (Suc 62) (Fin 1) @ [Fin 2])"
  let ?h = "\<lambda>i. fl_mul (fl_mul
                      (if Suc i < 63 then NaN
                       else nanstd 1 (map Fin (take 63 (drop (Suc i - 63) (replicate 62 0 @ [1])))))
                      (Fin (sqrt 252))) (Fin 100)"
  have nz: "(1::real) \<noteq> 0" "list_all (\<lambda>r. r \<noteq> 0) (replicate 62 (1::real) @ [2])"
    by (simp_all add: list_all_iff)
  have rv: "rolling_vol ?f = zip (tl (map fst ?f)) (map ?h [0..<63])"
    using rolling_vol_fin [OF step_frame_closes nz] by (simp only: step_returns) simp
  have "snd (rolling_vol ?f ! 62) = map ?h [0..<63] ! 62"
    unfolding rv by (subst nth_zip) simp_all
  also have "\<dots> = ?h 62"
    by (subst nth_map) simp_all
  also have "\<dots> = fl_mul (fl_mul (nanstd 1 (map Fin (replicate 62 0 @ [1]))) (Fin (sqrt 252))) (Fin 100)"
    by simp
  also have "nanstd 1 (map Fin (replicate 62 0 @ [1])) = Fin (sqrt (1 / 63))"
    using step_nanstd [of 1 62] by simp
  finally show ?thesis
    by simp
qed

text \<open>
  C3. The specification asks for the sample standard deviation of the returns, times
  \<open>sqrt 252\<close> times 100, rounded to two decimals; \<^verbatim>\<open>calculate_volatility\<close> takes the
  population deviation. On nine closes, eight of 1 and then 2, it returns 525.00, where the
  sample deviation gives 561.25.
\<close>

theorem calculate_volatility_population_example:
  "calculate_volatility (Some (zip [0..<9::nat] (replicate 8 (Fin 1) @ [Fin 2]))) = Some (Fin 525)
   \<and> spec_compute_volatility (zip [0..<9::nat] (replicate 8 (Fin 1) @ [Fin 2])) = Some (Fin (56125 / 100))"
proof
  have "sqrt (7 / 64) * sqrt 252 = sqrt (7 / 64 * 252)"
    by (simp only: real_sqrt_mult)
  also have "\<dots> = 21 / 4"
    by (rule sqrt_square_eq) simp_all
  finally have eq: "sqrt (7 / 64) * sqrt 252 = 21 / 4" .
  have v: "sqrt (7 / 64) * sqrt 252 * 100 = 525"
    unfolding eq by simp
  have r: "round2 525 = 525"
    using round2_hundredths [of 52500] by simp
  have "Suc (Suc 7) = 9" "Suc 7 = 8"
    by simp_all
  then have sv: "calculate_volatility (Some (zip [0..<9::nat] (replicate 8 (Fin 1) @ [Fin 2])))
      = Some (Fin (round2 (sqrt (7 / 64) * sqrt 252 * 100)))"
    using step_volatility [of 7] by (simp del: replicate_Suc upt_Suc)
  show "calculate_volatility (Some (zip [0..<9::nat] (replicate 8 (Fin 1) @ [Fin 2]))) = Some (Fin 525)"
    unfolding sv v r ..
next
  have "sqrt 3150000000 = sqrt (1 / 8 * 252 * 10000\<^sup>2)"
    by simp
  also have "\<dots> = sqrt (1 / 8) * sqrt 252 * sqrt (10000\<^sup>2)"
    by (simp only: real_sqrt_mult)
  also have "sqrt (10000\<^sup>2) = (10000::real)"
    by simp
  finally have e: "sqrt 3150000000 = sqrt (1 / 8) * sqrt 252 * 10000" .
  have e2: "sqrt (1 / 8) * sqrt 252 * 100 * 100 = sqrt 3150000000"
    unfolding e by simp
  have lo: "of_int 56125 - 1 / 2 < sqrt 3150000000"
    by (rule real_less_rsqrt) (simp add: power2_eq_square)
  have hi: "sqrt 3150000000 < of_int 56125 + 1 / 2"
    by (rule real_less_lsqrt) (simp_all add: power2_eq_square)
  have r: "round2 (sqrt (1 / 8) * sqrt 252 * 100) = of_int 56125 / 100"
    by (rule round2_near) (simp_all only: e2 lo hi)
  have "Suc (Suc 7) = 9" "Suc 7 = 8"
    by simp_all
  then have sv: "spec_compute_volatility (zip [0..<9::nat] (replicate 8 (Fin 1) @ [Fin 2]))
      = Some (Fin (round2 (sqrt (1 / 8) * sqrt 252 * 100)))"
    using step_spec_volatility [of 7] by (simp del: replicate_Suc upt_Suc)
  show "spec_compute_volatility (zip [0..<9::nat] (replicate 8 (Fin 1) @ [Fin 2])) = Some (Fin (56125 / 100))"
    unfolding sv r by simp
qed

text \<open>
  C7. The specification asks that every rolling value be the scalar volatility formula on the
  63 returns that end there. On 64 closes, 63 of 1 and then 2, the only full window holds all
  63 returns: the rolling value there is 200, from the sample deviation, and
  \<^verbatim>\<open>calculate_volatility\<close> on the same returns is 198.41, from the population deviation.
\<close>

theorem rolling_and_scalar_volatility_differ:
  "snd (rolling_vol (zip [0..<64::nat] (replicate 63 (Fin 1) @ [Fin 2])) ! 62) = Fin 200
   \<and> calculate_volatility (Some (zip [0..<64::nat] (replicate 63 (Fin 1) @ [Fin 2])))
       = Some (Fin (19841 / 100))"
proof
  have n: "Suc 63 = 64" "Suc 62 = 63"
    by simp_all
  have "sqrt (1 / 63) * sqrt 252 = sqrt (1 / 63 * 252)"
    by (simp only: real_sqrt_mult)
  also have "\<dots> = 2"
    by (rule sqrt_square_eq) simp_all
  finally have eq: "sqrt (1 / 63) * sqrt 252 = 2" .
  have v: "sqrt (1 / 63) * sqrt 252 * 100 = 200"
    unfolding eq by simp
  show "snd (rolling_vol (zip [0..<64::nat] (replicate 63 (Fin 1) @ [Fin 2])) ! 62) = Fin 200"
    using step_rolling_last unfolding n v .
next
  have n: "Suc (Suc 62) = 64" "Suc 62 = 63"
    by simp_all
  have "sqrt (24800000000 / 63) = sqrt (62 / 3969 * 252 * 10000\<^sup>2)"
    by simp
  also have "\<dots> = sqrt (62 / 3969) * sqrt 252 * sqrt (10000\<^sup>2)"
    by (simp only: real_sqrt_mult)
  also have "sqrt (10000\<^sup>2) = (10000::real)"
    by simp
  finally have e: "sqrt (24800000000 / 63) = sqrt (62 / 3969) * sqrt 252 * 10000" .
  have e2: "sqrt (62 / 3969) * sqrt 252 * 100 * 100 = sqrt (24800000000 / 63)"
    unfolding e by simp
  have lo: "of_int 19841 - 1 / 2 < sqrt (24800000000 / 63)"
    by (rule real_less_rsqrt) (simp add: power2_eq_square)
  have hi: "sqrt (24800000000 / 63) < of_int 19841 + 1 / 2"
    by (rule real_less_lsqrt) (simp_all add: power2_eq_square)
  have r: "round2 (sqrt (62 / 3969) * sqrt 252 * 100) = of_int 19841 / 100"
    by (rule round2_near) (simp_all only: e2 lo hi)
  have sv: "calculate_volatility (Some (zip [0..<64::nat] (replicate 63 (Fin 1) @ [Fin 2])))
      = Some (Fin (round2 (sqrt (62 / 3969) * sqrt 252 * 100)))"
    using step_volatility [of 62] n by (simp del: replicate_Suc upt_Suc)
  show "calculate_volatility (Some (zip [0..<64::nat] (replicate 63 (Fin 1) @ [Fin 2])))
       = Some (Fin (19841 / 100))"
    unfolding sv r by simp
qed

end
